theory Spec2Isabelle
  imports Complex_Main "HOL-Library.AList"
begin

section \<open>The training wrapper \<open>TrainVQG\<close> of \<open>main.py\<close>\<close>

text \<open>
  The theory embeds the class \<open>TrainVQG\<close>: the loss schedule (\<open>calculate_losses\<close>), the
  per-step hooks (\<open>training_step\<close>, \<open>validation_step\<close>, \<open>validation_epoch_end\<close>,
  \<open>test_step\<close>), the evaluation routine (\<open>decode_and_print\<close>) and the token filter
  (\<open>filter_special_tokens\<close>).

  Conventions of the embedding.
  \<^item> Python floats and the scalar tensors of the losses are read as real numbers: every
    statement below is about exact arithmetic, not about IEEE rounding, NaN or infinities.
  \<^item> A Python \<open>str\<close> is a \<open>string\<close>, one \<open>char\<close> per code point (code points below 256).
  \<^item> A Python \<open>dict\<close> is an association list in insertion order, without repeated keys.
  \<^item> An exception is the \<open>Inl\<close> of a sum type; the hooks do not catch anything, so a raise
    ends the call.
  \<^item> The sequence model, the tokenizer and the metric libraries are not part of
    \<open>main.py\<close>: they are the fields of the record \<open>externals\<close>, total functions (a call
    into them returns), and every theorem holds for all of them.
  \<^item> \<open>print\<close> and \<open>self.log\<close> write to sinks that no function reads back: only the evaluation
    of their arguments is modelled, because it can raise.
\<close>

subsection \<open>Errors and Python primitives\<close>

datatype error = ZeroDivisionError | IndexError | ValueError | KeyError

text \<open>\<open>xs[i]\<close> for a non-negative index.\<close>

definition py_get :: "'a list \<Rightarrow> nat \<Rightarrow> error + 'a" where
  "py_get xs i = (if i < length xs then Inr (xs ! i) else Inl IndexError)"

text \<open>
  \<open>x % y\<close> on floats: the result has the sign of the divisor, and a zero divisor raises.
\<close>

definition py_float_mod :: "real \<Rightarrow> real \<Rightarrow> error + real" where
  "py_float_mod x y =
     (if y = 0 then Inl ZeroDivisionError else Inr (x - y * of_int \<lfloor>x / y\<rfloor>))"

text \<open>
  \<open>str.isspace\<close> on the code points below 256: tab to carriage return, the four
  separators 28 to 31, the space, NEL (133) and the no-break space (160).
\<close>

definition is_space :: "char \<Rightarrow> bool" where
  "is_space c = (of_char c \<in> {9, 10, 11, 12, 13, 28, 29, 30, 31, 32, 133, 160 :: nat})"

text \<open>
  \<open>s.split()\<close>: the maximal runs of non-whitespace characters, in order. The first
  argument is the token being read.
\<close>

fun split_from :: "string \<Rightarrow> string \<Rightarrow> string list" where
  "split_from cur [] = (if cur = [] then [] else [cur])"
| "split_from cur (c # cs) =
     (if is_space c then (if cur = [] then split_from [] cs else cur # split_from [] cs)
      else split_from (cur @ [c]) cs)"

definition py_split :: "string \<Rightarrow> string list" where
  "py_split s = split_from [] s"

text \<open>\<open>sep.join(xs)\<close>.\<close>

fun py_join :: "string \<Rightarrow> string list \<Rightarrow> string" where
  "py_join sep [] = []"
| "py_join sep [x] = x"
| "py_join sep (x # y # ys) = x @ sep @ py_join sep (y # ys)"

text \<open>\<open>xs.index(x)\<close>, called only under the guard \<open>x in xs\<close>.\<close>

definition py_index :: "'a list \<Rightarrow> 'a \<Rightarrow> nat" where
  "py_index xs x = length (takeWhile (\<lambda>y. y \<noteq> x) xs)"

text \<open>
  \<open>max(xs, key=itemgetter(1))\<close>: the first element whose second component is maximal;
  \<open>ValueError\<close> on an empty list.
\<close>

fun py_max_by_snd :: "('a \<times> real) list \<Rightarrow> error + ('a \<times> real)" where
  "py_max_by_snd [] = Inl ValueError"
| "py_max_by_snd (x # xs) = Inr (fold (\<lambda>y best. if snd best < snd y then y else best) xs x)"

text \<open>\<open>np.round(x, 4)\<close>: scale by \<open>10\<^sup>4\<close>, round half to even, scale back.\<close>

definition rint :: "real \<Rightarrow> int" where
  "rint x =
     (let f = \<lfloor>x\<rfloor>; d = x - of_int f
      in if d < 1 / 2 then f else if 1 / 2 < d then f + 1 else if even f then f else f + 1)"

definition np_round4 :: "real \<Rightarrow> real" where
  "np_round4 x = of_int (rint (x * 10000)) / 10000"

subsection \<open>Arguments, external collaborators, state\<close>

text \<open>
  The command-line arguments the class reads: \<open>--num_warmup_steps\<close> is parsed with
  \<open>type=float\<close>, \<open>--total_training_steps\<close> with \<open>type=int\<close>.
\<close>

record args =
  lr :: real
  num_warmup_steps :: real
  total_training_steps :: int

text \<open>
  What \<open>main.py\<close> imports. \<open>'b\<close> is the type of a batch. The model's two entry points read
  the model's own flag \<open>latent_transformer\<close>, their first argument here. The decoded strings
  of a batch are \<open>[tokenizer.decode(x) for x in batch[...]]\<close>. The keys of the multiset
  Jaccard scores are given as \<open>"{}".format\<close> renders them.
\<close>

record 'b externals =
  model_forward :: "bool \<Rightarrow> 'b \<Rightarrow> real \<times> real option"
  model_decode_greedy :: "bool \<Rightarrow> 'b \<Rightarrow> string list"
  decode_question_ids :: "'b \<Rightarrow> string list"
  decode_input_ids :: "'b \<Rightarrow> string list"
  batch_image_ids :: "'b \<Rightarrow> nat list"
  all_special_tokens :: "string list"
  sep_token :: string
  compute_metrics :: "string list \<Rightarrow> string list \<Rightarrow> (string \<times> real) list"
  get_jaccard_score :: "string list \<Rightarrow> string list \<Rightarrow> (string \<times> real) list"

datatype optimizer = Adam (adam_lr: real)

text \<open>
  The fields of a \<open>TrainVQG\<close> object. \<open>optimizers_built\<close> counts the calls of
  \<open>configure_optimizers\<close>, each of which constructs a fresh \<open>Adam\<close> instance.
\<close>

record train_state =
  hparams :: args
  latent_transformer :: bool
  model_latent_transformer :: bool
  iter :: nat
  test_scores :: "(string \<times> real list) list"
  val_losses :: "(string \<times> real list) list"
  bleus :: "(nat \<times> real) list"
  msjs :: "(nat \<times> real) list"
  fbds :: "(nat \<times> real) list"
  optimizers_built :: nat

text \<open>\<open>__init__\<close>.\<close>

definition init :: "args \<Rightarrow> train_state" where
  "init a =
     \<lparr> hparams = a, latent_transformer = False, model_latent_transformer = False, iter = 0,
       test_scores = [],
       val_losses = [(''total loss'', []), (''rec loss'', []), (''kl loss'', [])],
       bleus = [], msjs = [], fbds = [], optimizers_built = 0 \<rparr>"

subsection \<open>The loss schedule\<close>

text \<open>
  \<open>calculate_losses(self, loss, kld, r=0.5)\<close>. The division \<open>total_training_steps/4\<close> is
  true division, so \<open>cycle_num\<close> is a float and \<open>self.iter % cycle_num\<close> a float modulo.
\<close>

definition calculate_losses ::
  "train_state \<Rightarrow> real \<Rightarrow> real option \<Rightarrow> real \<Rightarrow> error + (real \<times> real \<times> real)" where
  "calculate_losses s loss kld r =
     (case kld of
        None \<Rightarrow> Inr (loss, loss, 0)
      | Some k \<Rightarrow>
          (let cycle_num = of_int (total_training_steps (hparams s)) / 4
           in case py_float_mod (of_nat (iter s)) cycle_num of
                Inl e \<Rightarrow> Inl e
              | Inr md \<Rightarrow>
                  (let temp = md / cycle_num;
                       beta = (if temp \<le> r then 1 / (1 + exp (- temp)) else 1)
                   in Inr (loss + beta * k, loss, k))))"

subsection \<open>Training and validation steps\<close>

text \<open>\<open>configure_optimizers\<close>: a new optimizer over the current parameters.\<close>

definition configure_optimizers :: "train_state \<Rightarrow> train_state \<times> optimizer" where
  "configure_optimizers s =
     (s\<lparr>optimizers_built := Suc (optimizers_built s)\<rparr>, Adam (lr (hparams s)))"

text \<open>
  \<open>training_step\<close>. The branch on the warm-up is guarded by the iteration alone; the
  optimizer that \<open>configure_optimizers\<close> returns is dropped.
\<close>

definition training_step ::
  "'b externals \<Rightarrow> train_state \<Rightarrow> 'b \<Rightarrow> error + (train_state \<times> real)" where
  "training_step ext s batch =
     (let s1 = (if num_warmup_steps (hparams s) < of_nat (iter s)
                then fst (configure_optimizers
                       (s\<lparr>latent_transformer := True, model_latent_transformer := True\<rparr>))
                else s);
          (loss, kld) = model_forward ext (model_latent_transformer s1) batch
      in case calculate_losses s1 loss kld (1 / 2) of
           Inl e \<Rightarrow> Inl e
         | Inr (total_loss, loss_rec, loss_kl) \<Rightarrow> Inr (s1\<lparr>iter := Suc (iter s1)\<rparr>, total_loss))"

text \<open>\<open>d[k].append(x)\<close> on a dictionary of lists.\<close>

definition dict_append ::
  "string \<Rightarrow> 'v \<Rightarrow> (string \<times> 'v list) list \<Rightarrow> error + (string \<times> 'v list) list" where
  "dict_append k x d =
     (if k \<in> fst ` set d
      then Inr (map (\<lambda>(k', vs). if k' = k then (k', vs @ [x]) else (k', vs)) d)
      else Inl KeyError)"

definition validation_step :: "'b externals \<Rightarrow> train_state \<Rightarrow> 'b \<Rightarrow> error + train_state" where
  "validation_step ext s batch =
     (let (loss, kld) = model_forward ext (model_latent_transformer s) batch
      in case calculate_losses s loss kld (1 / 2) of
           Inl e \<Rightarrow> Inl e
         | Inr (total_loss, loss_rec, loss_kl) \<Rightarrow>
             (case dict_append ''total loss'' total_loss (val_losses s) of
                Inl e \<Rightarrow> Inl e
              | Inr d1 \<Rightarrow>
                  (case dict_append ''rec loss'' loss_rec d1 of
                     Inl e \<Rightarrow> Inl e
                   | Inr d2 \<Rightarrow>
                       (case dict_append ''kl loss'' loss_kl d2 of
                          Inl e \<Rightarrow> Inl e
                        | Inr d3 \<Rightarrow> Inr (s\<lparr>val_losses := d3\<rparr>)))))"

subsection \<open>Filtering and evaluation\<close>

text \<open>\<open>filter_special_tokens\<close>.\<close>

definition filter_special_tokens :: "'b externals \<Rightarrow> string \<Rightarrow> string" where
  "filter_special_tokens ext decoded_sentence_string =
     (let decoded_sentence_list = py_split decoded_sentence_string;
          special_tokens = all_special_tokens ext;
          decoded_sentence_list =
            (if sep_token ext \<in> set decoded_sentence_list
             then take (py_index decoded_sentence_list (sep_token ext)) decoded_sentence_list
             else decoded_sentence_list)
      in py_join '' '' (filter (\<lambda>token. token \<notin> set special_tokens) decoded_sentence_list))"

text \<open>
  What the five \<open>print\<close> calls for example \<open>i\<close> show: the image id, the category, the
  keyword inputs, the generated and the real question. \<open>image_ids[i]\<close> and
  \<open>curr_input.split()[0]\<close> can raise.
\<close>

definition print_example ::
  "nat list \<Rightarrow> nat \<Rightarrow> string \<Rightarrow> string \<Rightarrow> string
     \<Rightarrow> error + (nat \<times> string \<times> string \<times> string \<times> string)" where
  "print_example image_ids i curr_input generated_q real_q =
     (case py_get image_ids i of
        Inl e \<Rightarrow> Inl e
      | Inr image_id \<Rightarrow>
          (case py_get (py_split curr_input) 0 of
             Inl e \<Rightarrow> Inl e
           | Inr category \<Rightarrow>
               Inr (image_id, category, py_join '' '' (drop 1 (py_split curr_input)),
                    generated_q, real_q)))"

text \<open>
  The loop of \<open>decode_and_print\<close> over \<open>enumerate(decoded_sentences)\<close>, from index \<open>i\<close> on:
  the references \<open>gts\<close>, the hypotheses \<open>preds\<close> and the records shown for the examples
  below \<open>print_lim\<close>.
\<close>

fun decode_loop ::
  "'b externals \<Rightarrow> nat \<Rightarrow> string list \<Rightarrow> string list \<Rightarrow> nat list \<Rightarrow> nat \<Rightarrow> string list
     \<Rightarrow> error + (string list \<times> string list
                  \<times> (nat \<times> string \<times> string \<times> string \<times> string) list)" where
  "decode_loop ext print_lim decoded_inputs decoded_questions image_ids i [] = Inr ([], [], [])"
| "decode_loop ext print_lim decoded_inputs decoded_questions image_ids i (sentence # rest) =
     (case py_get decoded_inputs i of
        Inl e \<Rightarrow> Inl e
      | Inr decoded_input \<Rightarrow>
          (case py_get decoded_questions i of
             Inl e \<Rightarrow> Inl e
           | Inr decoded_question \<Rightarrow>
               (let curr_input = filter_special_tokens ext decoded_input;
                    generated_q = filter_special_tokens ext sentence;
                    real_q = filter_special_tokens ext decoded_question
                in case (if i < print_lim
                         then map_sum id (\<lambda>shown. [shown])
                                (print_example image_ids i curr_input generated_q real_q)
                         else Inr []) of
                     Inl e \<Rightarrow> Inl e
                   | Inr out \<Rightarrow>
                       (case decode_loop ext print_lim decoded_inputs decoded_questions
                               image_ids (Suc i) rest of
                          Inl e \<Rightarrow> Inl e
                        | Inr (gts, preds, printed) \<Rightarrow>
                            Inr (real_q # gts, generated_q # preds, out @ printed)))))"

text \<open>\<open>d.update(d2)\<close>, and the dictionary of the Jaccard scores with its keys prefixed.\<close>

definition dict_update_all :: "('k \<times> 'v) list \<Rightarrow> ('k \<times> 'v) list \<Rightarrow> ('k \<times> 'v) list" where
  "dict_update_all d d2 = fold (\<lambda>(k, v). AList.update k v) d2 d"

definition prefix_msj :: "(string \<times> real) list \<Rightarrow> (string \<times> real) list" where
  "prefix_msj msj_distance = fold (\<lambda>(k, v). AList.update (''msj_'' @ k) v) msj_distance []"

text \<open>The body of the loop under \<open>if val\<close>: one score recorded under a watched key.\<close>

definition record_score :: "string \<times> real \<Rightarrow> train_state \<Rightarrow> train_state" where
  "record_score kv s =
     (let rounded_val = np_round4 (snd kv * 100)
      in if fst kv = ''Bleu_4'' then s\<lparr>bleus := bleus s @ [(iter s, rounded_val)]\<rparr>
         else if fst kv = ''msj_4'' then s\<lparr>msjs := msjs s @ [(iter s, rounded_val)]\<rparr>
         else if fst kv = ''fbd'' then s\<lparr>fbds := fbds s @ [(iter s, rounded_val)]\<rparr>
         else s)"

text \<open>\<open>decode_and_print(self, batch, print_lim=20, val=True)\<close>.\<close>

definition decode_and_print ::
  "'b externals \<Rightarrow> train_state \<Rightarrow> 'b \<Rightarrow> nat \<Rightarrow> bool
     \<Rightarrow> error + (train_state \<times> (string \<times> real) list)" where
  "decode_and_print ext s batch print_lim val =
     (case decode_loop ext print_lim (decode_input_ids ext batch) (decode_question_ids ext batch)
             (batch_image_ids ext batch) 0
             (model_decode_greedy ext (model_latent_transformer s) batch) of
        Inl e \<Rightarrow> Inl e
      | Inr (gts, preds, printed) \<Rightarrow>
          (let scores = dict_update_all (compute_metrics ext gts preds)
                          (prefix_msj (get_jaccard_score ext gts preds));
               s1 = (if val then fold record_score scores s else s)
           in case py_max_by_snd (bleus s1) of
                Inl e \<Rightarrow> Inl e
              | Inr max_bleu \<Rightarrow>
                  (case py_max_by_snd (msjs s1) of
                     Inl e \<Rightarrow> Inl e
                   | Inr max_msjs \<Rightarrow> Inr (s1, scores))))"

text \<open>
  \<open>validation_epoch_end\<close>: the evaluation of the first collected batch, then the loop that
  empties every list of \<open>val_losses\<close>.
\<close>

definition validation_epoch_end ::
  "'b externals \<Rightarrow> train_state \<Rightarrow> 'b list \<Rightarrow> error + train_state" where
  "validation_epoch_end ext s batches =
     (case py_get batches 0 of
        Inl e \<Rightarrow> Inl e
      | Inr batch \<Rightarrow>
          (case decode_and_print ext s batch 20 True of
             Inl e \<Rightarrow> Inl e
           | Inr (s1, scores) \<Rightarrow>
               Inr (s1\<lparr>val_losses := map (\<lambda>(k, v). (k, [])) (val_losses s1)\<rparr>)))"

text \<open>
  The body of the second loop of \<open>test_step\<close>: a key that is not yet in \<open>test_scores\<close> is
  entered with an empty list, a key that is there gets the score appended. (\<open>test_end\<close>, which
  replaces every list by its mean once the test loop is over, is not part of the model.)
\<close>

definition accumulate_score ::
  "string \<times> real \<Rightarrow> (string \<times> real list) list \<Rightarrow> (string \<times> real list) list" where
  "accumulate_score kv d =
     (case map_of d (fst kv) of
        None \<Rightarrow> AList.update (fst kv) [] d
      | Some vs \<Rightarrow> AList.update (fst kv) (vs @ [snd kv]) d)"

definition test_step ::
  "'b externals \<Rightarrow> train_state \<Rightarrow> 'b \<Rightarrow> error + (train_state \<times> (string \<times> real) list)" where
  "test_step ext s batch =
     (case decode_and_print ext s batch 20 False of
        Inl e \<Rightarrow> Inl e
      | Inr (s1, scores) \<Rightarrow>
          Inr (s1\<lparr>test_scores := fold accumulate_score scores (test_scores s1)\<rparr>, scores))"

subsection \<open>Sequences of calls\<close>

text \<open>
  The trainer calls a hook once per batch and stops at the first exception; the test loop
  collects what \<open>test_step\<close> returns (the argument of \<open>test_end\<close>).
\<close>

fun training_steps :: "'b externals \<Rightarrow> train_state \<Rightarrow> 'b list \<Rightarrow> error + train_state" where
  "training_steps ext s [] = Inr s"
| "training_steps ext s (b # bs) =
     (case training_step ext s b of Inl e \<Rightarrow> Inl e | Inr (s', _) \<Rightarrow> training_steps ext s' bs)"

fun validation_steps :: "'b externals \<Rightarrow> train_state \<Rightarrow> 'b list \<Rightarrow> error + train_state" where
  "validation_steps ext s [] = Inr s"
| "validation_steps ext s (b # bs) =
     (case validation_step ext s b of Inl e \<Rightarrow> Inl e | Inr s' \<Rightarrow> validation_steps ext s' bs)"

fun test_steps ::
  "'b externals \<Rightarrow> train_state \<Rightarrow> 'b list
     \<Rightarrow> error + (train_state \<times> (string \<times> real) list list)" where
  "test_steps ext s [] = Inr (s, [])"
| "test_steps ext s (b # bs) =
     (case test_step ext s b of
        Inl e \<Rightarrow> Inl e
      | Inr (s1, scores) \<Rightarrow>
          (case test_steps ext s1 bs of
             Inl e \<Rightarrow> Inl e
           | Inr (s2, all_scores) \<Rightarrow> Inr (s2, scores # all_scores)))"

subsection \<open>The filter and the shown examples, as the specification words them\<close>

text \<open>
  The filter as the specification reads it: of the whitespace-separated tokens, keep those
  before the first separator token, and of these the ones that are not special tokens.
\<close>

definition kept_tokens :: "'b externals \<Rightarrow> string \<Rightarrow> string list" where
  "kept_tokens ext s =
     filter (\<lambda>t. t \<notin> set (all_special_tokens ext))
       (takeWhile (\<lambda>t. t \<noteq> sep_token ext) (py_split s))"

text \<open>
  The record shown for example \<open>j\<close>: image id, category (first kept token of the input),
  keyword inputs (the other kept tokens), filtered hypothesis, filtered reference.
\<close>

definition shown_example ::
  "'b externals \<Rightarrow> string list \<Rightarrow> string list \<Rightarrow> nat list \<Rightarrow> string \<Rightarrow> nat
     \<Rightarrow> nat \<times> string \<times> string \<times> string \<times> string" where
  "shown_example ext inputs questions ids sentence j =
     (ids ! j, hd (kept_tokens ext (inputs ! j)),
      py_join '' '' (tl (kept_tokens ext (inputs ! j))),
      filter_special_tokens ext sentence, filter_special_tokens ext (questions ! j))"

subsection \<open>Concrete configurations\<close>

text \<open>
  A run used to evaluate the hooks: no warm-up, four training steps in total, a model
  that returns the reconstruction loss 2 and, once its latent flag is set, the KL term 1.
  Batch 0 decodes to a category with two keywords; any other batch has an input made of
  structural tokens only. The special tokens are those of the BERT tokenizer.
\<close>

definition args_demo :: args where
  "args_demo = \<lparr> lr = 3 / 100000, num_warmup_steps = 0, total_training_steps = 4 \<rparr>"

definition args_zero_steps :: args where
  "args_zero_steps = \<lparr> lr = 3 / 100000, num_warmup_steps = 0, total_training_steps = 0 \<rparr>"

definition ext_demo :: "nat externals" where
  "ext_demo =
     \<lparr> model_forward = (\<lambda>latent b. (2, if latent then Some 1 else None)),
       model_decode_greedy = (\<lambda>latent b. [''what is this [SEP] [PAD]'']),
       decode_question_ids = (\<lambda>b. [''[CLS] what is that [SEP]'']),
       decode_input_ids =
         (\<lambda>b. if b = 0 then [''[CLS] object cat dog [SEP]''] else [''[CLS] [SEP] cat'']),
       batch_image_ids = (\<lambda>b. [7]),
       all_special_tokens = [''[UNK]'', ''[SEP]'', ''[PAD]'', ''[CLS]'', ''[MASK]''],
       sep_token = ''[SEP]'',
       compute_metrics = (\<lambda>gts preds. [(''Bleu_4'', 1 / 2)]),
       get_jaccard_score = (\<lambda>gts preds. [(''4'', 1 / 4)]) \<rparr>"

text \<open>The object of that run at iteration \<open>n\<close>, after \<open>k\<close> calls of \<open>configure_optimizers\<close>.\<close>

definition demo_state :: "nat \<Rightarrow> nat \<Rightarrow> train_state" where
  "demo_state n k =
     (init args_demo)\<lparr> iter := n, latent_transformer := (0 < k),
       model_latent_transformer := (0 < k), optimizers_built := k \<rparr>"

text \<open>
  Three more objects of the same configuration: after two validation steps, after the
  validation epoch that follows, and after three test steps on top of that.
\<close>

definition state_with_losses :: train_state where
  "state_with_losses =
     (init args_demo)\<lparr>val_losses :=
        [(''total loss'', [2, 2]), (''rec loss'', [2, 2]), (''kl loss'', [0, 0])]\<rparr>"

definition state_with_history :: train_state where
  "state_with_history = (init args_demo)\<lparr>bleus := [(0, 50)], msjs := [(0, 25)]\<rparr>"

definition state_after_tests :: train_state where
  "state_after_tests =
     state_with_history\<lparr>test_scores := [(''Bleu_4'', [1 / 2, 1 / 2]), (''msj_4'', [1 / 4, 1 / 4])]\<rparr>"

section \<open>Properties\<close>

subsection \<open>The loss schedule\<close>

text \<open>
  Claim C5. In plain mode (\<open>kld\<close> is \<open>None\<close>) \<open>calculate_losses\<close> returns the reconstruction
  loss as total and as reconstruction loss, and 0 as KL loss, whatever the iteration and
  the total number of training steps of the object are.
\<close>

theorem plain_mode_passthrough:
  "calculate_losses s loss None r = Inr (loss, loss, 0)"
  by (simp add: calculate_losses_def)

lemma phase_bounds:
  fixes x C :: real
  assumes "0 < C"
  shows "0 \<le> (x - C * of_int \<lfloor>x / C\<rfloor>) / C \<and> (x - C * of_int \<lfloor>x / C\<rfloor>) / C < 1"
proof -
  have eq: "(x - C * of_int \<lfloor>x / C\<rfloor>) / C = x / C - of_int \<lfloor>x / C\<rfloor>"
    using assms by (simp add: field_simps)
  show ?thesis unfolding eq by linarith
qed

lemma sigmoid_bounds:
  fixes t :: real
  assumes "0 \<le> t"
  shows "1 / 2 \<le> 1 / (1 + exp (- t)) \<and> 1 / (1 + exp (- t)) \<le> 1"
proof -
  have "exp (- t) \<le> 1" using assms by simp
  moreover have pos: "0 < 1 + exp (- t)"
    using exp_gt_zero [of "- t"] by linarith
  ultimately have "1 / 2 \<le> 1 / (1 + exp (- t))"
    by (intro frac_le) simp_all
  moreover have "1 / (1 + exp (- t)) \<le> 1"
  proof -
    have "(1 / (1 + exp (- t)) \<le> 1) = (1 \<le> 1 + exp (- t))"
      using pos by (rule divide_le_eq_1_pos)
    then show ?thesis by simp
  qed
  ultimately show ?thesis by simp
qed

text \<open>
  Claim C2. In latent mode (\<open>kld\<close> given) with a positive total number of training steps
  \<open>T\<close>, let \<open>C = T / 4\<close> be the cycle length, \<open>m\<close> the iteration modulo \<open>C\<close> and \<open>t = m / C\<close> the
  phase. Then \<open>calculate_losses\<close> returns the total \<open>loss + \<beta> * kld\<close> together with \<open>loss\<close> and
  \<open>kld\<close>, where \<open>\<beta>\<close> is the sigmoid of \<open>t\<close> when \<open>t \<le> 0.5\<close> and 1 otherwise. At a cycle
  boundary (\<open>m = 0\<close>) the weight is 0.5. The phase lies in \<open>[0, 1)\<close> and the weight in
  \<open>[0.5, 1]\<close>.
\<close>

theorem latent_mode_schedule:
  fixes s :: train_state and loss kld C m t \<beta> :: real
  assumes "0 < total_training_steps (hparams s)"
    and "C = of_int (total_training_steps (hparams s)) / 4"
    and "m = of_nat (iter s) - C * of_int \<lfloor>of_nat (iter s) / C\<rfloor>"
    and "t = m / C"
    and "\<beta> = (if t \<le> 1 / 2 then 1 / (1 + exp (- t)) else 1)"
  shows "calculate_losses s loss (Some kld) (1 / 2) = Inr (loss + \<beta> * kld, loss, kld) \<and>
         (m = 0 \<longrightarrow> \<beta> = 1 / 2) \<and> 0 \<le> t \<and> t < 1 \<and> 1 / 2 \<le> \<beta> \<and> \<beta> \<le> 1"
proof -
  have C: "0 < C" using assms(1,2) by simp
  have t: "0 \<le> t \<and> t < 1" using phase_bounds [OF C] assms(3,4) by simp
  have b: "1 / 2 \<le> \<beta> \<and> \<beta> \<le> 1" using sigmoid_bounds [of t] t assms(5) by auto
  have r: "calculate_losses s loss (Some kld) (1 / 2) = Inr (loss + \<beta> * kld, loss, kld)"
    using assms(1) unfolding assms(5) assms(4) assms(3) assms(2)
    by (simp add: calculate_losses_def py_float_mod_def Let_def)
  have z: "m = 0 \<longrightarrow> \<beta> = 1 / 2" using assms(4,5) by simp
  show ?thesis using t b r z by blast
qed

text \<open>
  The scenario of the specification: reconstruction loss 2.0, KL term 1.0, iteration 0 and
  four training steps in total (cycle length 1, phase 0, weight 0.5) give the triple
  (2.5, 2.0, 1.0).
\<close>

theorem latent_mode_schedule_witness:
  "calculate_losses (init args_demo) 2 (Some 1) (1 / 2) = Inr (5 / 2, 2, 1)"
  using latent_mode_schedule [of "init args_demo" 1 0 0 "1 / 2" 2 1]
  by (simp add: init_def args_demo_def)

text \<open>
  Claim C4, as the code has it. Nothing validates the total number of training steps:
  \<open>__init__\<close> accepts every value, and \<open>calculate_losses\<close> fails, with
  \<open>ZeroDivisionError\<close>, exactly when that number is 0 and a KL term is given. A negative
  number never makes it fail, and plain-mode calls succeed for every value.
\<close>

theorem zero_cycle_found_at_loss_computation:
  "calculate_losses s loss kld r = Inl e \<longleftrightarrow>
     e = ZeroDivisionError \<and> total_training_steps (hparams s) = 0 \<and> kld \<noteq> None"
  by (auto simp add: calculate_losses_def py_float_mod_def Let_def split: option.splits)

text \<open>
  Claim C4 as stated fails: with zero training steps configured the object is built, its
  first training step succeeds, and the second one, the first in latent mode, raises
  \<open>ZeroDivisionError\<close>.
\<close>

theorem zero_steps_not_rejected_up_front:
  "total_training_steps (hparams (init args_zero_steps)) \<le> 0 \<and>
   (\<exists>s l. training_step ext_demo (init args_zero_steps) 0 = Inr (s, l)) \<and>
   training_steps ext_demo (init args_zero_steps) [0, 0] = Inl ZeroDivisionError"
  by (simp add: training_step_def init_def args_zero_steps_def ext_demo_def
      configure_optimizers_def calculate_losses_def py_float_mod_def Let_def)

subsection \<open>The switch to latent mode\<close>

lemma training_step_effect:
  assumes "training_step ext s b = Inr (s', l)"
  shows "iter s' = Suc (iter s)"
    and "hparams s' = hparams s"
    and "latent_transformer s' =
           (latent_transformer s \<or> num_warmup_steps (hparams s) < real (iter s))"
    and "model_latent_transformer s' =
           (model_latent_transformer s \<or> num_warmup_steps (hparams s) < real (iter s))"
    and "optimizers_built s' =
           (if num_warmup_steps (hparams s) < real (iter s) then Suc (optimizers_built s)
            else optimizers_built s)"
  using assms
  by (auto simp add: training_step_def configure_optimizers_def Let_def
      split: prod.splits sum.splits if_splits)

lemma training_steps_snoc:
  "training_steps ext s (bs @ [b]) =
     (case training_steps ext s bs of
        Inl e \<Rightarrow> Inl e
      | Inr s1 \<Rightarrow> (case training_step ext s1 b of Inl e \<Rightarrow> Inl e | Inr (s2, _) \<Rightarrow> Inr s2))"
  by (induction bs arbitrary: s) (auto split: sum.splits prod.splits)

lemma training_steps_from_init:
  assumes "training_steps ext (init a) bs = Inr s"
  shows "hparams s = a \<and> iter s = length bs \<and>
         latent_transformer s = (\<exists>j<length bs. num_warmup_steps a < real j) \<and>
         model_latent_transformer s = latent_transformer s"
  using assms
proof (induction bs arbitrary: s rule: rev_induct)
  case Nil
  then have "s = init a" by simp
  then show ?case by (simp add: init_def)
next
  case (snoc b bs)
  from snoc.prems obtain s1 l where
    run: "training_steps ext (init a) bs = Inr s1" and step: "training_step ext s1 b = Inr (s, l)"
    by (auto simp add: training_steps_snoc split: sum.splits prod.splits)
  note ih = snoc.IH [OF run]
  note eff = training_step_effect [OF step]
  show ?case using ih eff by (auto simp add: less_Suc_eq)
qed

text \<open>
  Claim C1, on the code. The claim wants the mode-set and the optimizer reset to happen at
  one step only, the first whose iteration is above \<open>num_warmup_steps\<close>. The branch of
  \<open>training_step\<close> is guarded by the iteration alone and not by the mode, so it runs again
  at every later step. In the run without warm-up, two steps from a new object leave the
  latent flag set and one optimizer built (by the step at iteration 1); the third step, at
  iteration 2 and already in latent mode, succeeds and builds a second optimizer.
\<close>

theorem optimizer_rebuilt_after_transition:
  "training_steps ext_demo (init args_demo) [0, 0] = Inr (demo_state 2 1) \<and>
   latent_transformer (demo_state 2 1) \<and>
   optimizers_built (demo_state 2 1) = 1 \<and>
   training_step ext_demo (demo_state 2 1) 0 = Inr (demo_state 3 2, 5 / 2) \<and>
   optimizers_built (demo_state 3 2) = 2"
  by (simp add: training_step_def demo_state_def init_def args_demo_def ext_demo_def
      configure_optimizers_def calculate_losses_def py_float_mod_def Let_def)

lemma training_steps_keep_latent:
  assumes "training_steps ext s bs = Inr s'"
  shows "(latent_transformer s \<longrightarrow> latent_transformer s') \<and>
         (model_latent_transformer s \<longrightarrow> model_latent_transformer s')"
  using assms
proof (induction bs arbitrary: s)
  case Nil
  then show ?case by simp
next
  case (Cons b bs)
  from Cons.prems obtain s1 l where
    step: "training_step ext s b = Inr (s1, l)" and rest: "training_steps ext s1 bs = Inr s'"
    by (auto split: sum.splits prod.splits)
  show ?case using training_step_effect [OF step] Cons.IH [OF rest] by auto
qed

subsection \<open>Splitting, joining and filtering\<close>

lemma split_from_tokens_nonempty: "[] \<notin> set (split_from cur s)"
  by (induction s arbitrary: cur) auto

lemma split_from_tokens_no_space:
  "\<forall>c\<in>set cur. \<not> is_space c \<Longrightarrow> \<forall>t\<in>set (split_from cur s). \<forall>c\<in>set t. \<not> is_space c"
proof (induction s arbitrary: cur)
  case Nil
  then show ?case by auto
next
  case (Cons a s)
  show ?case
  proof (cases "is_space a")
    case True
    with Cons.IH [of "[]"] Cons.prems show ?thesis by auto
  next
    case False
    with Cons.IH [of "cur @ [a]"] Cons.prems show ?thesis by auto
  qed
qed

lemma split_from_Nil_iff: "split_from cur s = [] \<longleftrightarrow> cur = [] \<and> (\<forall>c\<in>set s. is_space c)"
  by (induction s arbitrary: cur) auto

lemma py_split_tokens: "t \<in> set (py_split s) \<Longrightarrow> t \<noteq> [] \<and> (\<forall>c\<in>set t. \<not> is_space c)"
  using split_from_tokens_nonempty [of "[]" s] split_from_tokens_no_space [of "[]" s]
  by (auto simp add: py_split_def)

lemma py_split_Nil_iff: "py_split s = [] \<longleftrightarrow> (\<forall>c\<in>set s. is_space c)"
  by (simp add: py_split_def split_from_Nil_iff)

lemma py_join_Nil_iff: "[] \<notin> set ts \<Longrightarrow> py_join sep ts = [] \<longleftrightarrow> ts = []"
  by (induction sep ts rule: py_join.induct) auto

lemma hd_subset_py_join: "ts \<noteq> [] \<Longrightarrow> set (hd ts) \<subseteq> set (py_join sep ts)"
  by (induction sep ts rule: py_join.induct) auto

lemma split_from_token:
  "\<forall>c\<in>set t. \<not> is_space c \<Longrightarrow> split_from cur (t @ rest) = split_from (cur @ t) rest"
  by (induction t arbitrary: cur) auto

lemma is_space_blank: "is_space CHR '' ''"
  by (simp add: is_space_def)

lemma split_from_join:
  assumes "\<forall>t\<in>set ts. t \<noteq> [] \<and> (\<forall>c\<in>set t. \<not> is_space c)"
  shows "split_from [] (py_join '' '' ts) = ts"
  using assms
proof (induction "'' ''" ts rule: py_join.induct)
  case 1
  then show ?case by simp
next
  case (2 x)
  then show ?case using split_from_token [of x "[]" "[]"] by simp
next
  case (3 x y ys)
  have "split_from [] (x @ '' '' @ py_join '' '' (y # ys)) =
        split_from x ('' '' @ py_join '' '' (y # ys))"
    using 3 split_from_token [of x "[]"] by simp
  also have "\<dots> = x # split_from [] (py_join '' '' (y # ys))"
    using 3 by (simp add: is_space_blank)
  finally show ?case using 3 by simp
qed

lemma py_split_join:
  "\<forall>t\<in>set ts. t \<noteq> [] \<and> (\<forall>c\<in>set t. \<not> is_space c) \<Longrightarrow> py_split (py_join '' '' ts) = ts"
  by (simp add: py_split_def split_from_join)

lemma truncate_at_sep:
  "(if x \<in> set xs then take (py_index xs x) xs else xs) = takeWhile (\<lambda>y. y \<noteq> x) xs"
proof (cases "x \<in> set xs")
  case True
  then show ?thesis by (simp add: py_index_def takeWhile_eq_take [symmetric])
next
  case False
  then have tw: "takeWhile (\<lambda>y. y \<noteq> x) xs = xs" by (auto simp add: takeWhile_eq_all_conv)
  show ?thesis by (simp add: False tw)
qed

lemma filter_special_tokens_eq:
  "filter_special_tokens ext s = py_join '' '' (kept_tokens ext s)"
  by (simp add: filter_special_tokens_def kept_tokens_def Let_def truncate_at_sep)

lemma kept_tokens_good:
  "t \<in> set (kept_tokens ext s) \<Longrightarrow> t \<noteq> [] \<and> (\<forall>c\<in>set t. \<not> is_space c)"
  using py_split_tokens [of t s]
  by (auto simp add: kept_tokens_def dest: set_takeWhileD)

lemma split_filtered: "py_split (filter_special_tokens ext s) = kept_tokens ext s"
  using kept_tokens_good [of _ ext s]
  by (simp add: filter_special_tokens_eq py_split_join)

lemma filtered_Nil_iff: "filter_special_tokens ext s = [] \<longleftrightarrow> kept_tokens ext s = []"
proof -
  have "[] \<notin> set (kept_tokens ext s)" using kept_tokens_good [of "[]" ext s] by blast
  then show ?thesis by (simp add: filter_special_tokens_eq py_join_Nil_iff)
qed

subsection \<open>The loop of \<open>decode_and_print\<close>\<close>

lemma py_get_Inl: "py_get xs i = Inl e \<longleftrightarrow> e = IndexError \<and> length xs \<le> i"
  by (auto simp add: py_get_def)

lemma py_get_Inr: "py_get xs i = Inr x \<longleftrightarrow> i < length xs \<and> x = xs ! i"
  by (auto simp add: py_get_def)

lemma print_example_Inl:
  "print_example ids i curr_input g r = Inl e \<longleftrightarrow>
     e = IndexError \<and> (length ids \<le> i \<or> py_split curr_input = [])"
  by (auto simp add: print_example_def py_get_def split: sum.splits)

lemma print_example_Inr:
  "print_example ids i curr_input g r = Inr shown \<longleftrightarrow>
     i < length ids \<and> py_split curr_input \<noteq> [] \<and>
     shown = (ids ! i, hd (py_split curr_input), py_join '' '' (tl (py_split curr_input)), g, r)"
  by (auto simp add: print_example_def py_get_def hd_conv_nth drop_Suc split: sum.splits)

lemma decode_loop_error:
  "decode_loop ext pl inputs questions ids i rest = Inl e \<Longrightarrow> e = IndexError"
proof (induction rest arbitrary: i)
  case Nil
  then show ?case by simp
next
  case (Cons sentence rest)
  then show ?case
    by (auto simp add: py_get_Inl print_example_Inl Let_def map_sum_def
        split: sum.splits if_splits prod.splits)
qed

lemma decode_loop_result:
  assumes "decode_loop ext pl inputs questions ids i rest = Inr (gts, preds, printed)"
  shows "preds = map (filter_special_tokens ext) rest \<and>
         gts = map (\<lambda>j. filter_special_tokens ext (questions ! j)) [i..<i + length rest] \<and>
         (\<forall>j. i \<le> j \<and> j < i + length rest \<longrightarrow> j < length inputs \<and> j < length questions) \<and>
         (\<forall>j. i \<le> j \<and> j < min pl (i + length rest) \<longrightarrow>
              j < length ids \<and> kept_tokens ext (inputs ! j) \<noteq> []) \<and>
         printed = map (\<lambda>j. shown_example ext inputs questions ids (rest ! (j - i)) j)
                     [i..<min pl (i + length rest)]"
  using assms
proof (induction rest arbitrary: i gts preds printed)
  case Nil
  then show ?case by auto
next
  case (Cons sentence rest)
  from Cons.prems obtain out gts' preds' printed' where
    inp: "i < length inputs" and qu: "i < length questions"
    and out: "(if i < pl then map_sum id (\<lambda>shown. [shown])
                 (print_example ids i (filter_special_tokens ext (inputs ! i))
                    (filter_special_tokens ext sentence) (filter_special_tokens ext (questions ! i)))
               else Inr []) = Inr out"
    and rec: "decode_loop ext pl inputs questions ids (Suc i) rest = Inr (gts', preds', printed')"
    and res: "gts = filter_special_tokens ext (questions ! i) # gts'"
       "preds = filter_special_tokens ext sentence # preds'" "printed = out @ printed'"
    by (auto simp add: py_get_def Let_def split: sum.splits if_splits prod.splits)
  note ih = Cons.IH [OF rec]
  have shift: "rest ! (j - Suc i) = (sentence # rest) ! (j - i)" if "Suc i \<le> j" for j
  proof -
    from that have "j - i = Suc (j - Suc i)" by arith
    then show ?thesis by simp
  qed
  have "map (\<lambda>j. shown_example ext inputs questions ids (rest ! (j - Suc i)) j)
          [Suc i..<min pl (Suc i + length rest)] =
        map (\<lambda>j. shown_example ext inputs questions ids ((sentence # rest) ! (j - i)) j)
          [Suc i..<min pl (Suc i + length rest)]"
  proof (rule map_cong [OF refl])
    fix j assume "j \<in> set [Suc i..<min pl (Suc i + length rest)]"
    then have "Suc i \<le> j" by simp
    then show "shown_example ext inputs questions ids (rest ! (j - Suc i)) j =
        shown_example ext inputs questions ids ((sentence # rest) ! (j - i)) j"
      by (simp only: shift)
  qed
  with ih have printed': "printed' = map (\<lambda>j. shown_example ext inputs questions ids
        ((sentence # rest) ! (j - i)) j) [Suc i..<min pl (Suc i + length rest)]"
    by simp
  from ih have ih_len: "\<forall>j. Suc i \<le> j \<and> j < Suc i + length rest \<longrightarrow>
      j < length inputs \<and> j < length questions"
    and ih_ne: "\<forall>j. Suc i \<le> j \<and> j < min pl (Suc i + length rest) \<longrightarrow>
      j < length ids \<and> kept_tokens ext (inputs ! j) \<noteq> []"
    and ih_gts: "gts' = map (\<lambda>j. filter_special_tokens ext (questions ! j))
      [Suc i..<Suc i + length rest]"
    and ih_preds: "preds' = map (filter_special_tokens ext) rest"
    by blast+
  have len_all: "\<forall>j. i \<le> j \<and> j < i + length (sentence # rest) \<longrightarrow>
      j < length inputs \<and> j < length questions"
  proof (intro allI impI)
    fix j assume j: "i \<le> j \<and> j < i + length (sentence # rest)"
    show "j < length inputs \<and> j < length questions"
    proof (cases "j = i")
      case True
      with inp qu show ?thesis by simp
    next
      case False
      with j have "Suc i \<le> j \<and> j < Suc i + length rest" by simp
      with ih_len show ?thesis by blast
    qed
  qed
  have eq: "i + length (sentence # rest) = Suc i + length rest" by simp
  have "[i..<i + length (sentence # rest)] = i # [Suc i..<Suc i + length rest]"
    unfolding eq by (rule upt_conv_Cons) simp
  with ih_gts res have gts: "gts = map (\<lambda>j. filter_special_tokens ext (questions ! j))
      [i..<i + length (sentence # rest)]"
    by simp
  from ih_preds res have preds: "preds = map (filter_special_tokens ext) (sentence # rest)"
    by simp
  show ?case
  proof (cases "i < pl")
    case True
    with out have pe: "print_example ids i (filter_special_tokens ext (inputs ! i))
        (filter_special_tokens ext sentence) (filter_special_tokens ext (questions ! i)) =
        Inr (hd out)" and o1: "out = [hd out]"
      by (auto simp add: map_sum_def split: sum.splits)
    from pe have ids: "i < length ids" and ne: "kept_tokens ext (inputs ! i) \<noteq> []"
      and hd: "hd out = shown_example ext inputs questions ids ((sentence # rest) ! (i - i)) i"
      by (auto simp add: print_example_Inr split_filtered shown_example_def)
    have upt: "[i..<min pl (i + length (sentence # rest))] =
               i # [Suc i..<min pl (Suc i + length rest)]"
      unfolding eq by (rule upt_conv_Cons) (use True in simp)
    have ne_all: "\<forall>j. i \<le> j \<and> j < min pl (i + length (sentence # rest)) \<longrightarrow>
        j < length ids \<and> kept_tokens ext (inputs ! j) \<noteq> []"
    proof (intro allI impI)
      fix j assume j: "i \<le> j \<and> j < min pl (i + length (sentence # rest))"
      show "j < length ids \<and> kept_tokens ext (inputs ! j) \<noteq> []"
      proof (cases "j = i")
        case True
        with ids ne show ?thesis by simp
      next
        case False
        with j have "Suc i \<le> j \<and> j < min pl (Suc i + length rest)" by simp
        with ih_ne show ?thesis by blast
      qed
    qed
    have "printed = map (\<lambda>j. shown_example ext inputs questions ids
        ((sentence # rest) ! (j - i)) j) [i..<min pl (i + length (sentence # rest))]"
      using res o1 hd printed' upt by simp
    with gts preds len_all ne_all show ?thesis by blast
  next
    case False
    with out have o: "out = []" by simp
    have "printed = map (\<lambda>j. shown_example ext inputs questions ids
        ((sentence # rest) ! (j - i)) j) [i..<min pl (i + length (sentence # rest))]"
      using res o False printed' by simp
    moreover have "\<forall>j. i \<le> j \<and> j < min pl (i + length (sentence # rest)) \<longrightarrow>
        j < length ids \<and> kept_tokens ext (inputs ! j) \<noteq> []"
      using False by auto
    ultimately show ?thesis using gts preds len_all by blast
  qed
qed

lemma decode_loop_empty_input:
  assumes "i \<le> j" "j < i + length rest" "j < pl" "kept_tokens ext (inputs ! j) = []"
  shows "decode_loop ext pl inputs questions ids i rest = Inl IndexError"
proof (cases "decode_loop ext pl inputs questions ids i rest")
  case (Inl e)
  then show ?thesis using decode_loop_error [OF Inl] by simp
next
  case (Inr r)
  obtain gts preds printed where "r = (gts, preds, printed)" by (cases r) auto
  with Inr decode_loop_result [of ext pl inputs questions ids i rest gts preds printed] assms
  show ?thesis by auto
qed

lemma decode_loop_succeeds:
  assumes "\<forall>j. i \<le> j \<and> j < i + length rest \<longrightarrow> j < length inputs \<and> j < length questions"
    and "\<forall>j. i \<le> j \<and> j < min pl (i + length rest) \<longrightarrow>
           j < length ids \<and> kept_tokens ext (inputs ! j) \<noteq> []"
  shows "\<exists>r. decode_loop ext pl inputs questions ids i rest = Inr r"
  using assms
proof (induction rest arbitrary: i)
  case Nil
  then show ?case by simp
next
  case (Cons sentence rest)
  have inp: "i < length inputs \<and> i < length questions" using Cons.prems(1) by simp
  have a: "\<forall>j. Suc i \<le> j \<and> j < Suc i + length rest \<longrightarrow> j < length inputs \<and> j < length questions"
    using Cons.prems(1) by simp
  have b: "\<forall>j. Suc i \<le> j \<and> j < min pl (Suc i + length rest) \<longrightarrow>
           j < length ids \<and> kept_tokens ext (inputs ! j) \<noteq> []"
    using Cons.prems(2) by simp
  from Cons.IH [OF a b] obtain r where
    r: "decode_loop ext pl inputs questions ids (Suc i) rest = Inr r" by blast
  have pr: "i < pl \<Longrightarrow> \<exists>shown. print_example ids i (filter_special_tokens ext (inputs ! i))
      (filter_special_tokens ext sentence) (filter_special_tokens ext (questions ! i)) = Inr shown"
  proof -
    assume "i < pl"
    then have "i < length ids \<and> kept_tokens ext (inputs ! i) \<noteq> []"
      using Cons.prems(2) by simp
    then show ?thesis by (simp add: print_example_Inr split_filtered)
  qed
  show ?case
  proof (cases "i < pl")
    case True
    from pr [OF True] obtain shown where "print_example ids i
      (filter_special_tokens ext (inputs ! i)) (filter_special_tokens ext sentence)
      (filter_special_tokens ext (questions ! i)) = Inr shown" by blast
    with True inp r show ?thesis
      by (cases r) (simp add: py_get_def Let_def)
  next
    case False
    with inp r show ?thesis by (cases r) (simp add: py_get_def Let_def)
  qed
qed

lemma record_score_frame:
  "hparams (record_score kv s) = hparams s"
  "iter (record_score kv s) = iter s"
  "latent_transformer (record_score kv s) = latent_transformer s"
  "model_latent_transformer (record_score kv s) = model_latent_transformer s"
  "val_losses (record_score kv s) = val_losses s"
  "test_scores (record_score kv s) = test_scores s"
  "optimizers_built (record_score kv s) = optimizers_built s"
  by (simp_all add: record_score_def Let_def)

lemma fold_record_score_frame:
  "hparams (fold record_score scores s) = hparams s \<and>
   iter (fold record_score scores s) = iter s \<and>
   latent_transformer (fold record_score scores s) = latent_transformer s \<and>
   model_latent_transformer (fold record_score scores s) = model_latent_transformer s \<and>
   val_losses (fold record_score scores s) = val_losses s \<and>
   test_scores (fold record_score scores s) = test_scores s \<and>
   optimizers_built (fold record_score scores s) = optimizers_built s"
  by (induction scores arbitrary: s) (simp_all add: record_score_frame)

lemma fold_record_score_bleus:
  "bleus (fold record_score scores s) =
     bleus s @ map (\<lambda>kv. (iter s, np_round4 (snd kv * 100)))
                 (filter (\<lambda>kv. fst kv = ''Bleu_4'') scores)"
proof (induction scores arbitrary: s)
  case Nil
  then show ?case by simp
next
  case (Cons kv scores)
  show ?case by (simp add: Cons.IH record_score_frame) (simp add: record_score_def Let_def)
qed

lemma fold_record_score_msjs:
  "msjs (fold record_score scores s) =
     msjs s @ map (\<lambda>kv. (iter s, np_round4 (snd kv * 100)))
                (filter (\<lambda>kv. fst kv = ''msj_4'') scores)"
proof (induction scores arbitrary: s)
  case Nil
  then show ?case by simp
next
  case (Cons kv scores)
  show ?case by (simp add: Cons.IH record_score_frame) (simp add: record_score_def Let_def)
qed

lemma fold_max_step:
  fixes x :: "'a \<times> real"
  shows "fold (\<lambda>y best. if snd best < snd y then y else best) xs x \<in> set (x # xs) \<and>
         (\<forall>y\<in>set (x # xs). snd y \<le> snd (fold (\<lambda>y best. if snd best < snd y then y else best) xs x))"
proof (induction xs arbitrary: x)
  case Nil
  then show ?case by simp
next
  case (Cons a xs)
  show ?case
  proof (cases "snd x < snd a")
    case True
    with Cons.IH [of a] show ?thesis by auto
  next
    case False
    with Cons.IH [of x] show ?thesis by auto
  qed
qed

lemma py_max_by_snd_Inl: "py_max_by_snd xs = Inl e \<longleftrightarrow> xs = [] \<and> e = ValueError"
  by (cases xs) auto

lemma py_max_by_snd_Inr:
  fixes xs :: "('a \<times> real) list"
  assumes "py_max_by_snd xs = Inr m"
  shows "m \<in> set xs \<and> (\<forall>x\<in>set xs. snd x \<le> snd m)"
proof (cases xs)
  case Nil
  with assms show ?thesis by simp
next
  case (Cons x rest)
  with assms have "m = fold (\<lambda>y best. if snd best < snd y then y else best) rest x" by simp
  with Cons fold_max_step [of rest x] show ?thesis by simp
qed

lemma split_example:
  "py_split ''[CLS] cat dog [SEP] extra'' = [''[CLS]'', ''cat'', ''dog'', ''[SEP]'', ''extra'']"
  by (simp add: py_split_def is_space_def)

text \<open>
  Claim C6. For every decoded string the filter keeps the whitespace-separated tokens in
  front of the first separator token (the separator and everything behind it are dropped),
  removes the special tokens among them and joins the rest with single blanks; splitting
  the result gives back exactly the kept tokens. With separator \<open>[SEP]\<close> and \<open>[CLS]\<close> special,
  the string \<open>[CLS] cat dog [SEP] extra\<close> filters to \<open>cat dog\<close>. Whenever the loop of
  \<open>decode_and_print\<close> completes, the hypotheses are the filtered generated sentences, the
  references the filtered ground-truth questions, and the category and keywords shown come
  from the filtered inputs: one filter for all three.
\<close>

theorem filter_truncates_then_strips:
  "filter_special_tokens ext s = py_join '' '' (kept_tokens ext s) \<and>
   py_split (filter_special_tokens ext s) = kept_tokens ext s \<and>
   (sep_token ext = ''[SEP]'' \<and> ''[CLS]'' \<in> set (all_special_tokens ext) \<and>
    ''cat'' \<notin> set (all_special_tokens ext) \<and> ''dog'' \<notin> set (all_special_tokens ext) \<longrightarrow>
      filter_special_tokens ext ''[CLS] cat dog [SEP] extra'' = ''cat dog'') \<and>
   (\<forall>r. decode_loop ext print_lim inputs questions ids 0 sentences = Inr r \<longrightarrow>
      r = (map (\<lambda>j. filter_special_tokens ext (questions ! j)) [0..<length sentences],
           map (filter_special_tokens ext) sentences,
           map (\<lambda>j. shown_example ext inputs questions ids (sentences ! j) j)
             [0..<min print_lim (length sentences)]))"
proof -
  have ex: "sep_token ext = ''[SEP]'' \<and> ''[CLS]'' \<in> set (all_special_tokens ext) \<and>
    ''cat'' \<notin> set (all_special_tokens ext) \<and> ''dog'' \<notin> set (all_special_tokens ext) \<longrightarrow>
      filter_special_tokens ext ''[CLS] cat dog [SEP] extra'' = ''cat dog''"
    by (simp add: filter_special_tokens_eq kept_tokens_def split_example)
  have loop: "\<forall>r. decode_loop ext print_lim inputs questions ids 0 sentences = Inr r \<longrightarrow>
      r = (map (\<lambda>j. filter_special_tokens ext (questions ! j)) [0..<length sentences],
           map (filter_special_tokens ext) sentences,
           map (\<lambda>j. shown_example ext inputs questions ids (sentences ! j) j)
             [0..<min print_lim (length sentences)])"
  proof (intro allI impI)
    fix r assume r: "decode_loop ext print_lim inputs questions ids 0 sentences = Inr r"
    obtain gts preds printed where "r = (gts, preds, printed)" by (cases r) auto
    with r decode_loop_result [of ext print_lim inputs questions ids 0 sentences gts preds printed]
    show "r = (map (\<lambda>j. filter_special_tokens ext (questions ! j)) [0..<length sentences],
           map (filter_special_tokens ext) sentences,
           map (\<lambda>j. shown_example ext inputs questions ids (sentences ! j) j)
             [0..<min print_lim (length sentences)])"
      by simp
  qed
  show ?thesis using filter_special_tokens_eq split_filtered ex loop by blast
qed

lemma demo_loop:
  "decode_loop ext_demo 20 (decode_input_ids ext_demo 0) (decode_question_ids ext_demo 0)
     (batch_image_ids ext_demo 0) 0 (model_decode_greedy ext_demo False 0) =
   Inr ([''what is that''], [''what is this''],
        [(7, ''object'', ''cat dog'', ''what is this'', ''what is that'')])"
  by (simp add: ext_demo_def filter_special_tokens_def py_split_def is_space_def py_index_def
      print_example_def py_get_def Let_def)

theorem filter_truncates_then_strips_witness:
  "filter_special_tokens ext_demo ''[CLS] cat dog [SEP] extra'' = ''cat dog'' \<and>
   decode_loop ext_demo 20 (decode_input_ids ext_demo 0) (decode_question_ids ext_demo 0)
     (batch_image_ids ext_demo 0) 0 (model_decode_greedy ext_demo False 0) =
   Inr ([''what is that''], [''what is this''],
        [(7, ''object'', ''cat dog'', ''what is this'', ''what is that'')])"
proof -
  have sel: "sep_token ext_demo = ''[SEP]''"
    "all_special_tokens ext_demo = [''[UNK]'', ''[SEP]'', ''[PAD]'', ''[CLS]'', ''[MASK]'']"
    by (simp_all add: ext_demo_def)
  have "sep_token ext_demo = ''[SEP]'' \<and> ''[CLS]'' \<in> set (all_special_tokens ext_demo) \<and>
    ''cat'' \<notin> set (all_special_tokens ext_demo) \<and>
    ''dog'' \<notin> set (all_special_tokens ext_demo) \<longrightarrow>
      filter_special_tokens ext_demo ''[CLS] cat dog [SEP] extra'' = ''cat dog''"
    using filter_truncates_then_strips [of ext_demo] by blast
  then have "filter_special_tokens ext_demo ''[CLS] cat dog [SEP] extra'' = ''cat dog''"
    by (simp add: sel)
  with demo_loop show ?thesis by simp
qed

subsection \<open>Failures of \<open>decode_and_print\<close>\<close>

lemma decode_and_print_loop_error:
  assumes "decode_loop ext pl (decode_input_ids ext batch) (decode_question_ids ext batch)
             (batch_image_ids ext batch) 0
             (model_decode_greedy ext (model_latent_transformer s) batch) = Inl e"
  shows "decode_and_print ext s batch pl val = Inl IndexError"
  using assms decode_loop_error [OF assms] by (simp add: decode_and_print_def)

text \<open>
  Claim C10. \<open>decode_and_print\<close> has a precondition on the decoded inputs: if, for an example
  \<open>j\<close> below \<open>print_lim\<close> of the batch, the decoded input filters to the empty string, the
  call ends with \<open>IndexError\<close> (raised by \<open>curr_input.split()[0]\<close>) and produces no scores,
  whatever \<open>val\<close> is. The filtered input is empty exactly when every token in front of the
  first separator is a special token.
\<close>

theorem empty_filtered_input_raises:
  assumes "j < length (model_decode_greedy ext (model_latent_transformer s) batch)"
    and "j < print_lim"
    and "j < length (decode_input_ids ext batch)"
    and "filter_special_tokens ext (decode_input_ids ext batch ! j) = []"
  shows "decode_and_print ext s batch print_lim val = Inl IndexError \<and>
         set (takeWhile (\<lambda>t. t \<noteq> sep_token ext) (py_split (decode_input_ids ext batch ! j)))
           \<subseteq> set (all_special_tokens ext)"
proof -
  have k: "kept_tokens ext (decode_input_ids ext batch ! j) = []"
    using assms(4) by (simp add: filtered_Nil_iff)
  have "decode_loop ext print_lim (decode_input_ids ext batch) (decode_question_ids ext batch)
          (batch_image_ids ext batch) 0
          (model_decode_greedy ext (model_latent_transformer s) batch) = Inl IndexError"
    using assms(1,2) k by (intro decode_loop_empty_input [of 0 j]) simp_all
  then have "decode_and_print ext s batch print_lim val = Inl IndexError"
    by (rule decode_and_print_loop_error)
  moreover have "set (takeWhile (\<lambda>t. t \<noteq> sep_token ext)
      (py_split (decode_input_ids ext batch ! j))) \<subseteq> set (all_special_tokens ext)"
    using k by (auto simp add: kept_tokens_def filter_empty_conv)
  ultimately show ?thesis by simp
qed

theorem empty_filtered_input_raises_witness:
  "filter_special_tokens ext_demo (decode_input_ids ext_demo 1 ! 0) = [] \<and>
   decode_and_print ext_demo (init args_demo) 1 20 True = Inl IndexError"
proof -
  have f: "filter_special_tokens ext_demo (decode_input_ids ext_demo 1 ! 0) = []"
    by (simp add: ext_demo_def filter_special_tokens_def py_split_def is_space_def py_index_def)
  have "decode_and_print ext_demo (init args_demo) 1 20 True = Inl IndexError"
    using empty_filtered_input_raises [of 0 ext_demo "init args_demo" 1 20 True, OF _ _ _ f]
    by (simp add: ext_demo_def)
  with f show ?thesis by simp
qed

lemma decode_and_print_Inr:
  assumes "decode_and_print ext s batch pl val = Inr (s', scores)"
  shows "bleus s' \<noteq> [] \<and> msjs s' \<noteq> [] \<and>
         hparams s' = hparams s \<and> iter s' = iter s \<and>
         latent_transformer s' = latent_transformer s \<and>
         model_latent_transformer s' = model_latent_transformer s \<and>
         val_losses s' = val_losses s \<and> test_scores s' = test_scores s \<and>
         optimizers_built s' = optimizers_built s \<and> (\<not> val \<longrightarrow> s' = s)"
proof (cases "decode_loop ext pl (decode_input_ids ext batch) (decode_question_ids ext batch)
      (batch_image_ids ext batch) 0 (model_decode_greedy ext (model_latent_transformer s) batch)")
  case (Inl e)
  with assms show ?thesis by (simp add: decode_and_print_def)
next
  case (Inr r)
  obtain gts preds printed where r: "r = (gts, preds, printed)" by (cases r) auto
  define sc where "sc = dict_update_all (compute_metrics ext gts preds)
      (prefix_msj (get_jaccard_score ext gts preds))"
  define s1 where "s1 = (if val then fold record_score sc s else s)"
  from assms Inr r have res: "(case py_max_by_snd (bleus s1) of
        Inl e \<Rightarrow> Inl e
      | Inr max_bleu \<Rightarrow>
          (case py_max_by_snd (msjs s1) of
             Inl e \<Rightarrow> Inl e
           | Inr max_msjs \<Rightarrow> Inr (s1, sc))) = Inr (s', scores)"
    unfolding decode_and_print_def Inr r Let_def
    by (simp only: sum.case prod.case sc_def [symmetric] s1_def [symmetric])
  have b: "bleus s1 \<noteq> []"
    using res by (cases "bleus s1") simp_all
  have m: "msjs s1 \<noteq> []"
    using res b by (cases "bleus s1"; cases "msjs s1") simp_all
  have eq: "s' = s1"
    using res by (cases "bleus s1"; cases "msjs s1") simp_all
  have frame: "hparams s1 = hparams s \<and> iter s1 = iter s \<and>
         latent_transformer s1 = latent_transformer s \<and>
         model_latent_transformer s1 = model_latent_transformer s \<and>
         val_losses s1 = val_losses s \<and> test_scores s1 = test_scores s \<and>
         optimizers_built s1 = optimizers_built s"
    using fold_record_score_frame [of sc s] by (simp add: s1_def)
  have "\<not> val \<longrightarrow> s1 = s" by (simp add: s1_def)
  with b m frame show ?thesis unfolding eq by blast
qed

text \<open>
  Claim C9. The best recorded score is \<open>max(history, key=itemgetter(1))\<close>. On an empty
  history the query raises (Python's \<open>ValueError\<close> for \<open>max\<close> of an empty sequence, the
  specification's EmptyHistoryError) and only then; on a non-empty one it returns a recorded
  pair whose value is maximal, never a default. The error reaches the caller of
  \<open>decode_and_print\<close>: in test mode, where nothing is recorded, the call ends with that error
  exactly when the loop over the examples completes and the history of \<open>Bleu_4\<close> or of
  \<open>msj_4\<close> is empty; and in either mode a call that returns leaves both histories non-empty.
\<close>

theorem empty_history_query_raises:
  fixes xs :: "(nat \<times> real) list"
  shows "(py_max_by_snd xs = Inl ValueError \<longleftrightarrow> xs = []) \<and>
   (\<forall>m. py_max_by_snd xs = Inr m \<longrightarrow> m \<in> set xs \<and> (\<forall>x\<in>set xs. snd x \<le> snd m)) \<and>
   (decode_and_print ext s batch print_lim False = Inl ValueError \<longleftrightarrow>
      (\<exists>r. decode_loop ext print_lim (decode_input_ids ext batch) (decode_question_ids ext batch)
             (batch_image_ids ext batch) 0
             (model_decode_greedy ext (model_latent_transformer s) batch) = Inr r) \<and>
      (bleus s = [] \<or> msjs s = [])) \<and>
   (\<forall>s' scores. decode_and_print ext s batch print_lim val = Inr (s', scores) \<longrightarrow>
      bleus s' \<noteq> [] \<and> msjs s' \<noteq> [])"
proof -
  have a: "py_max_by_snd xs = Inl ValueError \<longleftrightarrow> xs = []"
    by (simp add: py_max_by_snd_Inl)
  have b: "\<forall>m. py_max_by_snd xs = Inr m \<longrightarrow> m \<in> set xs \<and> (\<forall>x\<in>set xs. snd x \<le> snd m)"
    using py_max_by_snd_Inr [of xs] by blast
  have c: "decode_and_print ext s batch print_lim False = Inl ValueError \<longleftrightarrow>
      (\<exists>r. decode_loop ext print_lim (decode_input_ids ext batch) (decode_question_ids ext batch)
             (batch_image_ids ext batch) 0
             (model_decode_greedy ext (model_latent_transformer s) batch) = Inr r) \<and>
      (bleus s = [] \<or> msjs s = [])"
  proof (cases "decode_loop ext print_lim (decode_input_ids ext batch)
      (decode_question_ids ext batch) (batch_image_ids ext batch) 0
      (model_decode_greedy ext (model_latent_transformer s) batch)")
    case (Inl e)
    from decode_and_print_loop_error [OF Inl] Inl show ?thesis by simp
  next
    case (Inr r)
    obtain gts preds printed where "r = (gts, preds, printed)" by (cases r) auto
    with Inr show ?thesis
      by (cases "bleus s"; cases "msjs s") (simp_all add: decode_and_print_def Let_def)
  qed
  have d: "\<forall>s' scores. decode_and_print ext s batch print_lim val = Inr (s', scores) \<longrightarrow>
      bleus s' \<noteq> [] \<and> msjs s' \<noteq> []"
  proof (intro allI impI)
    fix s' scores
    assume "decode_and_print ext s batch print_lim val = Inr (s', scores)"
    from decode_and_print_Inr [OF this] show "bleus s' \<noteq> [] \<and> msjs s' \<noteq> []" by simp
  qed
  show ?thesis by (intro conjI) (rule a, rule b, rule c, rule d)
qed

lemma np_round4_demo: "np_round4 50 = 50" "np_round4 25 = 25"
  by (simp_all add: np_round4_def rint_def Let_def)

theorem empty_history_query_raises_witness:
  "py_max_by_snd [(10, 5), (20, 8), (30, 3 :: real)] = Inr (20 :: nat, 8) \<and>
   bleus (init args_demo) = [] \<and>
   decode_and_print ext_demo (init args_demo) 0 20 False = Inl ValueError \<and>
   decode_and_print ext_demo (init args_demo) 0 20 True =
     Inr ((init args_demo)\<lparr>bleus := [(0, 50)], msjs := [(0, 25)]\<rparr>,
          [(''Bleu_4'', 1 / 2), (''msj_4'', 1 / 4)])"
proof -
  note inst = empty_history_query_raises [of "[(10, 5), (20, 8), (30, 3)]" ext_demo
      "init args_demo" 0 20 True]
  have loop: "decode_loop ext_demo 20 (decode_input_ids ext_demo 0) (decode_question_ids ext_demo 0)
     (batch_image_ids ext_demo 0) 0
     (model_decode_greedy ext_demo (model_latent_transformer (init args_demo)) 0) =
     Inr ([''what is that''], [''what is this''],
        [(7, ''object'', ''cat dog'', ''what is this'', ''what is that'')])"
    using demo_loop by (simp add: init_def)
  have e: "bleus (init args_demo) = []" by (simp add: init_def)
  from inst loop e have t: "decode_and_print ext_demo (init args_demo) 0 20 False = Inl ValueError"
    by blast
  have m: "py_max_by_snd [(10, 5), (20, 8), (30, 3 :: real)] = Inr (20 :: nat, 8)" by simp
  have sc: "compute_metrics ext_demo [''what is that''] [''what is this''] = [(''Bleu_4'', 1 / 2)]"
    "get_jaccard_score ext_demo [''what is that''] [''what is this''] = [(''4'', 1 / 4)]"
    by (simp_all add: ext_demo_def)
  have scores: "dict_update_all (compute_metrics ext_demo [''what is that''] [''what is this''])
      (prefix_msj (get_jaccard_score ext_demo [''what is that''] [''what is this''])) =
      [(''Bleu_4'', 1 / 2), (''msj_4'', 1 / 4)]"
    by (simp add: sc dict_update_all_def prefix_msj_def)
  have recorded: "fold record_score [(''Bleu_4'', 1 / 2), (''msj_4'', 1 / 4)] (init args_demo) =
      (init args_demo)\<lparr>bleus := [(0, 50)], msjs := [(0, 25)]\<rparr>"
    by (simp add: record_score_def Let_def np_round4_demo init_def)
  have v: "decode_and_print ext_demo (init args_demo) 0 20 True =
     Inr ((init args_demo)\<lparr>bleus := [(0, 50)], msjs := [(0, 25)]\<rparr>,
          [(''Bleu_4'', 1 / 2), (''msj_4'', 1 / 4)])"
    by (simp only: decode_and_print_def loop sum.case prod.case Let_def if_True scores recorded)
       simp
  from m e t v show ?thesis by blast
qed

subsection \<open>The validation accumulator\<close>

lemma dict_append_three:
  assumes "map fst d = [k1, k2, k3]" "k1 \<noteq> k2" "k1 \<noteq> k3" "k2 \<noteq> k3"
  obtains a b c where "d = [(k1, a), (k2, b), (k3, c)]"
    and "dict_append k1 x d = Inr [(k1, a @ [x]), (k2, b), (k3, c)]"
    and "dict_append k2 x [(k1, a'), (k2, b), (k3, c)] = Inr [(k1, a'), (k2, b @ [x]), (k3, c)]"
    and "dict_append k3 x [(k1, a'), (k2, b'), (k3, c)] = Inr [(k1, a'), (k2, b'), (k3, c @ [x])]"
proof -
  from assms(1) obtain p1 p2 p3 where d: "d = [p1, p2, p3]"
    and f: "fst p1 = k1" "fst p2 = k2" "fst p3 = k3"
    by (auto simp add: map_eq_Cons_conv)
  obtain a b c where p: "p1 = (k1, a)" "p2 = (k2, b)" "p3 = (k3, c)"
    using f by (cases p1; cases p2; cases p3) auto
  show ?thesis
    using assms(2-4) by (intro that [of a b c]) (simp_all add: d p dict_append_def)
qed

lemma validation_step_losses:
  assumes keys: "map fst (val_losses s) = [''total loss'', ''rec loss'', ''kl loss'']"
    and step: "validation_step ext s b = Inr s'"
  shows "map fst (val_losses s') = map fst (val_losses s) \<and>
         map (length \<circ> snd) (val_losses s') = map (Suc \<circ> length \<circ> snd) (val_losses s)"
proof -
  obtain loss kld where fw: "model_forward ext (model_latent_transformer s) b = (loss, kld)"
    by (cases "model_forward ext (model_latent_transformer s) b") auto
  obtain total_loss loss_rec loss_kl where
    cl: "calculate_losses s loss kld (1 / 2) = Inr (total_loss, loss_rec, loss_kl)"
    using step fw by (cases "calculate_losses s loss kld (1 / 2)")
      (auto simp add: validation_step_def)
  obtain a bb c where d: "val_losses s = [(''total loss'', a), (''rec loss'', bb), (''kl loss'', c)]"
    using keys by (rule dict_append_three) simp_all
  have "s' = s\<lparr>val_losses := [(''total loss'', a @ [total_loss]), (''rec loss'', bb @ [loss_rec]),
      (''kl loss'', c @ [loss_kl])]\<rparr>"
    using step by (simp add: validation_step_def fw cl d dict_append_def)
  then show ?thesis by (simp add: d)
qed

lemma validation_steps_losses:
  assumes "map fst (val_losses s) = [''total loss'', ''rec loss'', ''kl loss'']"
    and "validation_steps ext s bs = Inr s'"
  shows "map fst (val_losses s') = map fst (val_losses s) \<and>
         map (length \<circ> snd) (val_losses s') =
           map (\<lambda>kv. length (snd kv) + length bs) (val_losses s)"
  using assms
proof (induction bs arbitrary: s)
  case Nil
  then show ?case by simp
next
  case (Cons b bs)
  from Cons.prems(2) obtain s1 where
    step: "validation_step ext s b = Inr s1" and rest: "validation_steps ext s1 bs = Inr s'"
    by (auto split: sum.splits)
  note one = validation_step_losses [OF Cons.prems(1) step]
  from one Cons.prems(1) have k1: "map fst (val_losses s1) = [''total loss'', ''rec loss'', ''kl loss'']"
    by simp
  note ih = Cons.IH [OF k1 rest]
  obtain a bb c where d: "val_losses s = [(''total loss'', a), (''rec loss'', bb), (''kl loss'', c)]"
    using Cons.prems(1) by (rule dict_append_three) simp_all
  obtain a1 b1 c1 where d1: "val_losses s1 = [(''total loss'', a1), (''rec loss'', b1), (''kl loss'', c1)]"
    using k1 by (rule dict_append_three) simp_all
  show ?case using ih one by (simp add: d d1)
qed

lemma validation_epoch_end_losses:
  assumes "validation_epoch_end ext s batches = Inr s'"
  shows "val_losses s' = map (\<lambda>(k, v). (k, [])) (val_losses s)"
proof -
  from assms obtain batch where b: "py_get batches 0 = Inr batch"
    by (cases "py_get batches 0") (auto simp add: validation_epoch_end_def)
  from assms b obtain s1 scores where
    dp: "decode_and_print ext s batch 20 True = Inr (s1, scores)"
    and s': "s' = s1\<lparr>val_losses := map (\<lambda>(k, v). (k, [])) (val_losses s1)\<rparr>"
    by (cases "decode_and_print ext s batch 20 True")
       (auto simp add: validation_epoch_end_def)
  from decode_and_print_Inr [OF dp] have "val_losses s1 = val_losses s" by simp
  with s' show ?thesis by simp
qed

text \<open>
  Claim C7. Take any object whose \<open>val_losses\<close> has its three keys, any sequence of
  validation steps on it (each appends one value to each of the three lists), and a call of
  \<open>validation_epoch_end\<close> that returns: afterwards the three lists (total loss,
  reconstruction loss, KL loss) are empty again.
\<close>

theorem validation_epoch_end_clears:
  assumes "map fst (val_losses s0) = [''total loss'', ''rec loss'', ''kl loss'']"
    and "validation_steps ext s0 vbs = Inr s"
    and "validation_epoch_end ext s batches = Inr s'"
  shows "map (length \<circ> snd) (val_losses s) =
           map (\<lambda>kv. length (snd kv) + length vbs) (val_losses s0) \<and>
         val_losses s' = [(''total loss'', []), (''rec loss'', []), (''kl loss'', [])]"
proof -
  note vs = validation_steps_losses [OF assms(1,2)]
  from vs assms(1) have "map fst (val_losses s) = [''total loss'', ''rec loss'', ''kl loss'']"
    by simp
  then obtain a b c where
    d: "val_losses s = [(''total loss'', a), (''rec loss'', b), (''kl loss'', c)]"
    by (rule dict_append_three) simp_all
  from validation_epoch_end_losses [OF assms(3)] d vs show ?thesis by simp
qed

lemma demo_validation_steps:
  "validation_steps ext_demo (init args_demo) [0, 0] = Inr state_with_losses"
  by (simp add: validation_step_def ext_demo_def init_def calculate_losses_def dict_append_def
      state_with_losses_def)

lemma demo_loop_any:
  "decode_loop ext_demo 20 (decode_input_ids ext_demo 0) (decode_question_ids ext_demo 0)
     (batch_image_ids ext_demo 0) 0 (model_decode_greedy ext_demo l 0) =
   Inr ([''what is that''], [''what is this''],
        [(7, ''object'', ''cat dog'', ''what is this'', ''what is that'')])"
  by (simp add: ext_demo_def filter_special_tokens_def py_split_def is_space_def py_index_def
      print_example_def py_get_def Let_def)

lemma demo_scores:
  "dict_update_all (compute_metrics ext_demo gts preds)
     (prefix_msj (get_jaccard_score ext_demo gts preds)) =
   [(''Bleu_4'', 1 / 2), (''msj_4'', 1 / 4)]"
  by (simp add: ext_demo_def dict_update_all_def prefix_msj_def)

lemma demo_recorded:
  "fold record_score [(''Bleu_4'', 1 / 2), (''msj_4'', 1 / 4)] s =
     s\<lparr>bleus := bleus s @ [(iter s, 50)], msjs := msjs s @ [(iter s, 25)]\<rparr>"
  by (simp add: record_score_def Let_def np_round4_demo)

lemma py_max_by_snd_nonempty: "xs \<noteq> [] \<Longrightarrow> \<exists>m. py_max_by_snd xs = Inr m"
  by (cases xs) simp_all

lemma demo_decode_val:
  "decode_and_print ext_demo s 0 20 True =
     Inr (s\<lparr>bleus := bleus s @ [(iter s, 50)], msjs := msjs s @ [(iter s, 25)]\<rparr>,
          [(''Bleu_4'', 1 / 2), (''msj_4'', 1 / 4)])"
proof -
  obtain mb where mb: "py_max_by_snd (bleus s @ [(iter s, 50)]) = Inr mb"
    using py_max_by_snd_nonempty [of "bleus s @ [(iter s, 50)]"] by auto
  obtain mm where mm: "py_max_by_snd (msjs s @ [(iter s, 25)]) = Inr mm"
    using py_max_by_snd_nonempty [of "msjs s @ [(iter s, 25)]"] by auto
  show ?thesis
    by (simp only: decode_and_print_def demo_loop_any sum.case prod.case Let_def if_True
        demo_scores demo_recorded) (simp add: mb mm)
qed

lemma demo_decode_test:
  assumes "bleus s \<noteq> []" "msjs s \<noteq> []"
  shows "decode_and_print ext_demo s 0 20 False = Inr (s, [(''Bleu_4'', 1 / 2), (''msj_4'', 1 / 4)])"
proof -
  obtain mb where mb: "py_max_by_snd (bleus s) = Inr mb"
    using py_max_by_snd_nonempty [OF assms(1)] by auto
  obtain mm where mm: "py_max_by_snd (msjs s) = Inr mm"
    using py_max_by_snd_nonempty [OF assms(2)] by auto
  show ?thesis
    by (simp only: decode_and_print_def demo_loop_any sum.case prod.case Let_def if_False
        demo_scores) (simp add: mb mm)
qed

lemma demo_epoch_end:
  "validation_epoch_end ext_demo state_with_losses [0] = Inr state_with_history"
  by (simp add: validation_epoch_end_def py_get_def demo_decode_val)
     (simp add: state_with_losses_def state_with_history_def init_def)

theorem validation_epoch_end_clears_witness:
  "validation_steps ext_demo (init args_demo) [0, 0] = Inr state_with_losses \<and>
   val_losses state_with_losses =
     [(''total loss'', [2, 2]), (''rec loss'', [2, 2]), (''kl loss'', [0, 0])] \<and>
   validation_epoch_end ext_demo state_with_losses [0] = Inr state_with_history \<and>
   val_losses state_with_history = [(''total loss'', []), (''rec loss'', []), (''kl loss'', [])]"
proof -
  have k: "map fst (val_losses (init args_demo)) = [''total loss'', ''rec loss'', ''kl loss'']"
    by (simp add: init_def)
  from validation_epoch_end_clears [OF k demo_validation_steps demo_epoch_end]
  have "val_losses state_with_history =
      [(''total loss'', []), (''rec loss'', []), (''kl loss'', [])]" by simp
  moreover have "val_losses state_with_losses =
     [(''total loss'', [2, 2]), (''rec loss'', [2, 2]), (''kl loss'', [0, 0])]"
    by (simp add: state_with_losses_def)
  ultimately show ?thesis using demo_validation_steps demo_epoch_end by simp
qed

subsection \<open>The test-score accumulator\<close>

lemma accumulate_score_map_of:
  "map_of (accumulate_score kv d) =
     (map_of d)(fst kv \<mapsto> (case map_of d (fst kv) of None \<Rightarrow> [] | Some vs \<Rightarrow> vs @ [snd kv]))"
  by (simp add: accumulate_score_def AList.update_conv' split: option.splits)

lemma fold_accumulate_other:
  "k \<notin> fst ` set sc \<Longrightarrow> map_of (fold accumulate_score sc d) k = map_of d k"
  by (induction sc arbitrary: d) (auto simp add: accumulate_score_map_of)

lemma fold_accumulate_key:
  assumes "distinct (map fst sc)" "k \<in> fst ` set sc"
  shows "map_of (fold accumulate_score sc d) k =
           Some (case map_of d k of None \<Rightarrow> [] | Some vs \<Rightarrow> vs @ [the (map_of sc k)])"
  using assms
proof (induction sc arbitrary: d)
  case Nil
  then show ?case by simp
next
  case (Cons kv sc)
  show ?case
  proof (cases "fst kv = k")
    case True
    with Cons.prems have "k \<notin> fst ` set sc" by auto
    note other = fold_accumulate_other [OF this]
    obtain v where kv: "kv = (k, v)" using True by (cases kv) auto
    show ?thesis by (simp add: kv other accumulate_score_map_of split: option.splits)
  next
    case False
    with Cons.prems have d: "distinct (map fst sc)" and k: "k \<in> fst ` set sc" by auto
    obtain a v where kv: "kv = (a, v)" and a: "a \<noteq> k" using False by (cases kv) auto
    show ?thesis
      by (simp add: kv a a [symmetric] Cons.IH [OF d k] accumulate_score_map_of
          split: option.splits)
  qed
qed

lemma test_step_scores:
  assumes "test_step ext s b = Inr (s', scores)"
  shows "s' = s\<lparr>test_scores := fold accumulate_score scores (test_scores s)\<rparr>"
proof -
  from assms obtain s1 where dp: "decode_and_print ext s b 20 False = Inr (s1, scores)"
    and s': "s' = s1\<lparr>test_scores := fold accumulate_score scores (test_scores s1)\<rparr>"
    by (cases "decode_and_print ext s b 20 False") (auto simp add: test_step_def)
  from decode_and_print_Inr [OF dp] have "s1 = s" by simp
  with s' show ?thesis by simp
qed

lemma test_steps_appends:
  assumes "test_steps ext s bs = Inr (s', all_scores)"
    and "map_of (test_scores s) k = Some vs"
    and "\<forall>sc\<in>set all_scores. distinct (map fst sc) \<and> k \<in> fst ` set sc"
  shows "map_of (test_scores s') k = Some (vs @ map (\<lambda>sc. the (map_of sc k)) all_scores) \<and>
         length all_scores = length bs"
  using assms
proof (induction bs arbitrary: s vs all_scores)
  case Nil
  then show ?case by simp
next
  case (Cons b bs)
  from Cons.prems(1) obtain s1 sc rest where
    step: "test_step ext s b = Inr (s1, sc)" and
    run: "test_steps ext s1 bs = Inr (s', rest)" and
    all: "all_scores = sc # rest"
    by (auto split: sum.splits prod.splits)
  from Cons.prems(3) all have sc: "distinct (map fst sc)" "k \<in> fst ` set sc"
    and rest: "\<forall>sc\<in>set rest. distinct (map fst sc) \<and> k \<in> fst ` set sc"
    by simp_all
  have "map_of (test_scores s1) k = Some (vs @ [the (map_of sc k)])"
    using test_step_scores [OF step] fold_accumulate_key [OF sc, of "test_scores s"]
      Cons.prems(2) by simp
  from Cons.IH [OF run this rest] all show ?case by simp
qed

text \<open>
  Claim C3. Let a key \<open>k\<close> be absent from \<open>test_scores\<close>, and let a non-empty sequence of
  test steps run, each returning a dictionary of scores that has the key \<open>k\<close>. The first
  step only enters \<open>k\<close> with an empty list, every later step appends its score: in the end
  the list under \<open>k\<close> holds the scores of all steps but the first, one value fewer than
  there were steps.
\<close>

theorem first_test_score_not_stored:
  assumes "test_steps ext s bs = Inr (s', all_scores)"
    and "map_of (test_scores s) k = None"
    and "\<forall>sc\<in>set all_scores. distinct (map fst sc) \<and> k \<in> fst ` set sc"
    and "bs \<noteq> []"
  shows "\<exists>vs. map_of (test_scores s') k = Some vs \<and>
              vs = map (\<lambda>sc. the (map_of sc k)) (tl all_scores) \<and>
              length vs = length bs - 1"
proof -
  from assms(4) obtain b rest_bs where bs: "bs = b # rest_bs" by (cases bs) auto
  from assms(1) bs obtain s1 sc rest where
    step: "test_step ext s b = Inr (s1, sc)" and
    run: "test_steps ext s1 rest_bs = Inr (s', rest)" and
    all: "all_scores = sc # rest"
    by (auto split: sum.splits prod.splits)
  from assms(3) all have sc: "distinct (map fst sc)" "k \<in> fst ` set sc"
    and rest: "\<forall>sc\<in>set rest. distinct (map fst sc) \<and> k \<in> fst ` set sc"
    by simp_all
  have first: "map_of (test_scores s1) k = Some []"
    using test_step_scores [OF step] fold_accumulate_key [OF sc, of "test_scores s"] assms(2)
    by simp
  from test_steps_appends [OF run first rest] all bs show ?thesis by simp
qed

lemma demo_test_step:
  assumes "bleus s \<noteq> []" "msjs s \<noteq> []"
  shows "test_step ext_demo s 0 =
     Inr (s\<lparr>test_scores := fold accumulate_score [(''Bleu_4'', 1 / 2), (''msj_4'', 1 / 4)]
                               (test_scores s)\<rparr>,
          [(''Bleu_4'', 1 / 2), (''msj_4'', 1 / 4)])"
  by (simp add: test_step_def demo_decode_test [OF assms])

lemma demo_test_steps:
  "test_steps ext_demo state_with_history [0, 0, 0] =
     Inr (state_after_tests,
          [[(''Bleu_4'', 1 / 2), (''msj_4'', 1 / 4)], [(''Bleu_4'', 1 / 2), (''msj_4'', 1 / 4)],
           [(''Bleu_4'', 1 / 2), (''msj_4'', 1 / 4)]])"
  by (simp add: demo_test_step state_with_history_def init_def accumulate_score_def
      state_after_tests_def)

theorem first_test_score_not_stored_witness:
  "test_steps ext_demo state_with_history [0, 0, 0] =
     Inr (state_after_tests,
          [[(''Bleu_4'', 1 / 2), (''msj_4'', 1 / 4)], [(''Bleu_4'', 1 / 2), (''msj_4'', 1 / 4)],
           [(''Bleu_4'', 1 / 2), (''msj_4'', 1 / 4)]]) \<and>
   map_of (test_scores state_with_history) ''Bleu_4'' = None \<and>
   map_of (test_scores state_after_tests) ''Bleu_4'' = Some [1 / 2, 1 / 2]"
proof -
  have n: "map_of (test_scores state_with_history) ''Bleu_4'' = None"
    by (simp add: state_with_history_def init_def)
  have "\<exists>vs. map_of (test_scores state_after_tests) ''Bleu_4'' = Some vs \<and>
     vs = map (\<lambda>sc. the (map_of sc ''Bleu_4''))
            (tl [[(''Bleu_4'', 1 / 2), (''msj_4'', 1 / 4)], [(''Bleu_4'', 1 / 2), (''msj_4'', 1 / 4)],
                 [(''Bleu_4'', 1 / 2), (''msj_4'', 1 / 4)]]) \<and>
     length vs = length [0, 0, 0 :: nat] - 1"
    by (rule first_test_score_not_stored [OF demo_test_steps n]) simp_all
  then have "map_of (test_scores state_after_tests) ''Bleu_4'' = Some [1 / 2, 1 / 2]"
    by simp
  with demo_test_steps n show ?thesis by simp
qed

subsection \<open>The latent flag is never cleared\<close>

lemma validation_step_flags:
  assumes "validation_step ext s b = Inr s'"
  shows "latent_transformer s' = latent_transformer s \<and>
         model_latent_transformer s' = model_latent_transformer s"
proof -
  obtain loss kld where fw: "model_forward ext (model_latent_transformer s) b = (loss, kld)"
    by (cases "model_forward ext (model_latent_transformer s) b") auto
  from assms fw obtain d where "s' = s\<lparr>val_losses := d\<rparr>"
    by (auto simp add: validation_step_def split: sum.splits prod.splits)
  then show ?thesis by simp
qed

lemma validation_epoch_end_flags:
  assumes "validation_epoch_end ext s batches = Inr s'"
  shows "latent_transformer s' = latent_transformer s \<and>
         model_latent_transformer s' = model_latent_transformer s"
proof -
  from assms obtain batch where b: "py_get batches 0 = Inr batch"
    by (cases "py_get batches 0") (auto simp add: validation_epoch_end_def)
  from assms b obtain s1 scores where
    dp: "decode_and_print ext s batch 20 True = Inr (s1, scores)"
    and s': "s' = s1\<lparr>val_losses := map (\<lambda>(k, v). (k, [])) (val_losses s1)\<rparr>"
    by (cases "decode_and_print ext s batch 20 True")
       (auto simp add: validation_epoch_end_def)
  from decode_and_print_Inr [OF dp] s' show ?thesis by simp
qed

text \<open>
  Claim C8. No assignment of the class sets the latent flag to false. For every sequence of
  training steps from any object, a flag that is set before the sequence is set after it,
  for the wrapper's flag and for the model's; and \<open>validation_step\<close>,
  \<open>validation_epoch_end\<close> and \<open>test_step\<close> leave both flags as they are.
\<close>

theorem latent_mode_never_reverts:
  "(\<forall>s'. training_steps ext s bs = Inr s' \<longrightarrow>
      (latent_transformer s \<longrightarrow> latent_transformer s') \<and>
      (model_latent_transformer s \<longrightarrow> model_latent_transformer s')) \<and>
   (\<forall>s'. validation_step ext s b = Inr s' \<longrightarrow>
      latent_transformer s' = latent_transformer s \<and>
      model_latent_transformer s' = model_latent_transformer s) \<and>
   (\<forall>s'. validation_epoch_end ext s batches = Inr s' \<longrightarrow>
      latent_transformer s' = latent_transformer s \<and>
      model_latent_transformer s' = model_latent_transformer s) \<and>
   (\<forall>s' scores. test_step ext s b = Inr (s', scores) \<longrightarrow>
      latent_transformer s' = latent_transformer s \<and>
      model_latent_transformer s' = model_latent_transformer s)"
proof (intro conjI allI impI)
  fix s' assume "training_steps ext s bs = Inr s'"
  note keep = training_steps_keep_latent [OF this]
  { assume "latent_transformer s" with keep show "latent_transformer s'" by simp }
  { assume "model_latent_transformer s" with keep show "model_latent_transformer s'" by simp }
next
  fix s' assume "validation_step ext s b = Inr s'"
  note f = validation_step_flags [OF this]
  from f show "latent_transformer s' = latent_transformer s" by simp
  from f show "model_latent_transformer s' = model_latent_transformer s" by simp
next
  fix s' assume "validation_epoch_end ext s batches = Inr s'"
  note f = validation_epoch_end_flags [OF this]
  from f show "latent_transformer s' = latent_transformer s" by simp
  from f show "model_latent_transformer s' = model_latent_transformer s" by simp
next
  fix s' scores assume "test_step ext s b = Inr (s', scores)"
  note f = test_step_scores [OF this]
  from f show "latent_transformer s' = latent_transformer s" by simp
  from f show "model_latent_transformer s' = model_latent_transformer s" by simp
qed

lemma demo_run_latent:
  "training_steps ext_demo (demo_state 2 1) [0, 0] = Inr (demo_state 4 3)"
  by (simp add: training_step_def demo_state_def init_def args_demo_def ext_demo_def
      configure_optimizers_def calculate_losses_def py_float_mod_def Let_def)

theorem latent_mode_never_reverts_witness:
  "latent_transformer (demo_state 2 1) \<and> model_latent_transformer (demo_state 2 1) \<and>
   training_steps ext_demo (demo_state 2 1) [0, 0] = Inr (demo_state 4 3) \<and>
   latent_transformer (demo_state 4 3) \<and> model_latent_transformer (demo_state 4 3)"
proof -
  have l: "latent_transformer (demo_state 2 1)" "model_latent_transformer (demo_state 2 1)"
    by (simp_all add: demo_state_def)
  from latent_mode_never_reverts [of ext_demo "demo_state 2 1" "[0, 0]" 0 "[0]"]
  have "training_steps ext_demo (demo_state 2 1) [0, 0] = Inr (demo_state 4 3) \<longrightarrow>
      (latent_transformer (demo_state 2 1) \<longrightarrow> latent_transformer (demo_state 4 3)) \<and>
      (model_latent_transformer (demo_state 2 1) \<longrightarrow> model_latent_transformer (demo_state 4 3))"
    by blast
  with demo_run_latent l show ?thesis by simp
qed

end
